theory Spec2Isabelle
  imports Main
begin

section \<open>Store synchronisation client (src/shared/store/client.ts)\<close>

text \<open>
  The file registers event listeners on two transports (Electron IPC and socket.io) that
  apply incoming changes and snapshots to a local store, and observers that send local
  changes of the config subtree back. JavaScript runs each listener to its end on one
  thread; a Promise continuation runs later, as a job of the microtask queue. The model
  is a world record threaded through every call: the store, the state of the one config
  mutex, the queue of pending jobs, and the trace of everything sent or applied, in order.
\<close>

subsection \<open>Data\<close>

text \<open>
  \<open>AppStore\<close> is a class instance: named fields holding values. \<open>SerializedChange\<close> is
  declared in ./ipc; the code here reads only its \<open>path\<close>, a string.
\<close>

type_synonym 'v AppStore = "string \<rightharpoonup> 'v"

record 'p SerializedChange =
  path :: string
  rest :: 'p

text \<open>What a call that may throw leaves behind: the store after it, and how it ended.\<close>

datatype 'a outcome = Returned 'a | Threw 'a

datatype completion = Completed | Uncaught

datatype mutex = ConfigMutex

datatype observer = RendererConfigIpc | WebsocketConfigListener

datatype 'p job = Acquired "'p SerializedChange" | Releasing

datatype 'p event =
    Ipc_send string
  | Ipc_send_change string "'p SerializedChange"
  | Sender_send string
  | Ws_emit string "'p SerializedChange"
  | Done_called
  | Applied "'p SerializedChange"
  | Apply_threw "'p SerializedChange"
  | Installed
  | Unhandled_rejection

text \<open>
  The imports the file calls and does not define are parameters:
  \<^item> \<open>applyChanges\<close> (./ipc): mutates the store in place, and may throw;
  \<^item> \<open>deserialize\<close> (serializr, at the \<open>AppStore\<close> schema): \<open>None\<close> when it throws;
  \<^item> \<open>observed\<close>: the change records that \<open>observeStore\<close> (./ipc) hands to a handler
    registered on \<open>store.config\<close> when the store goes from the first state to the second.
\<close>

record ('v, 'p, 'd) env =
  applyChanges :: "'v AppStore \<Rightarrow> 'p SerializedChange \<Rightarrow> 'v AppStore outcome"
  deserialize :: "'d \<Rightarrow> 'v AppStore option"
  observed :: "'v AppStore \<Rightarrow> 'v AppStore \<Rightarrow> 'p SerializedChange list"

record ('v, 'p) world =
  store :: "'v AppStore"
  locked :: bool
  waiting :: "'p SerializedChange list"
  jobs :: "'p job list"
  trace :: "'p event list"
  observers :: "observer list"
  ipc_listening :: bool
  ws_listening :: "mutex option option"

datatype ('p, 'd) message = Store_update "'p SerializedChange" | Store_init 'd

definition emit :: "'p event \<Rightarrow> ('v, 'p) world \<Rightarrow> ('v, 'p) world" where
  "emit e w = w\<lparr>trace := trace w @ [e]\<rparr>"

subsection \<open>String.prototype.startsWith\<close>

definition startsWith :: "string \<Rightarrow> string \<Rightarrow> bool" where
  "startsWith s p = (take (length p) s = p)"

subsection \<open>The mutex of async-mutex\<close>

text \<open>
  Modelled from the spec: the \<open>Mutex\<close> class of the async-mutex package, which the file
  imports (section 4.3: a binary flag plus a FIFO queue of pending acquisitions; \<open>isLocked\<close>
  is synchronous; \<open>runExclusive\<close> holds the lock for the duration of its callback and
  releases it on every exit path). \<open>runExclusive\<close> returns a Promise: the call itself only
  takes the lock when it is free, or joins the queue; the callback runs in a later job
  (\<open>Acquired\<close>); when the callback throws, the lock is released in that same job, and
  otherwise in the job after it (\<open>Releasing\<close>). The only callback the file passes is
  \<open>() => applyChanges(store, change)\<close>, so a waiter is identified by its change.
\<close>

definition isLocked :: "('v, 'p) world \<Rightarrow> bool" where
  "isLocked w = locked w"

definition dispatch :: "('v, 'p) world \<Rightarrow> ('v, 'p) world" where
  "dispatch w =
     (case waiting w of
        [] \<Rightarrow> w
      | c # cs \<Rightarrow> w\<lparr>locked := True, waiting := cs, jobs := jobs w @ [Acquired c]\<rparr>)"

definition acquire :: "'p SerializedChange \<Rightarrow> ('v, 'p) world \<Rightarrow> ('v, 'p) world" where
  "acquire c w =
     (let was_locked = isLocked w;
          w' = w\<lparr>waiting := waiting w @ [c]\<rparr>
      in if \<not> was_locked then dispatch w' else w')"

definition release :: "('v, 'p) world \<Rightarrow> ('v, 'p) world" where
  "release w = dispatch (w\<lparr>locked := False\<rparr>)"

definition runExclusive :: "'p SerializedChange \<Rightarrow> ('v, 'p) world \<Rightarrow> ('v, 'p) world" where
  "runExclusive c w = acquire c w"

subsection \<open>Observation of store.config\<close>

text \<open>
  The handlers of \<open>registerRendererConfigIpc\<close> and \<open>registerWebsocketConfigListener\<close>:
  \<open>change => !configLock.isLocked() && send('config-update', change)\<close>.
\<close>

definition config_handler ::
  "observer \<Rightarrow> 'p SerializedChange \<Rightarrow> ('v, 'p) world \<Rightarrow> ('v, 'p) world" where
  "config_handler ob change w =
     (if \<not> isLocked w
      then (case ob of
              RendererConfigIpc \<Rightarrow> emit (Ipc_send_change ''config-update'' change) w
            | WebsocketConfigListener \<Rightarrow> emit (Ws_emit ''config-update'' change) w)
      else w)"

definition registerRendererConfigIpc :: "('v, 'p) world \<Rightarrow> ('v, 'p) world" where
  "registerRendererConfigIpc w = w\<lparr>observers := observers w @ [RendererConfigIpc]\<rparr>"

definition registerWebsocketConfigListener :: "('v, 'p) world \<Rightarrow> ('v, 'p) world" where
  "registerWebsocketConfigListener w = w\<lparr>observers := observers w @ [WebsocketConfigListener]\<rparr>"

text \<open>
  A mutation of the store: the store is assigned, and every registered handler is called,
  synchronously, once for each change record observed on the config subtree.
\<close>

definition notify :: "'p SerializedChange list \<Rightarrow> ('v, 'p) world \<Rightarrow> ('v, 'p) world" where
  "notify changes w =
     fold (\<lambda>change w1. fold (\<lambda>ob. config_handler ob change) (observers w1) w1) changes w"

definition mutate ::
  "('v, 'p, 'd) env \<Rightarrow> 'v AppStore \<Rightarrow> ('v, 'p) world \<Rightarrow> ('v, 'p) world" where
  "mutate E s' w = notify (observed E (store w) s') (w\<lparr>store := s'\<rparr>)"

definition call_applyChanges ::
  "('v, 'p, 'd) env \<Rightarrow> 'p SerializedChange \<Rightarrow> ('v, 'p) world \<Rightarrow> completion \<times> ('v, 'p) world" where
  "call_applyChanges E change w =
     (case applyChanges E (store w) change of
        Returned s' \<Rightarrow> (Completed, emit (Applied change) (mutate E s' w))
      | Threw s' \<Rightarrow> (Uncaught, emit (Apply_threw change) (mutate E s' w)))"

text \<open>mobx \<open>set(target, values)\<close>: assigns every key of \<open>values\<close> on \<open>target\<close>.\<close>

definition mobx_set ::
  "('v, 'p, 'd) env \<Rightarrow> 'v AppStore \<Rightarrow> ('v, 'p) world \<Rightarrow> ('v, 'p) world" where
  "mobx_set E values w = emit Installed (mutate E (store w ++ values) w)"

subsection \<open>applyConfigLockedChange\<close>

definition applyConfigLockedChange ::
  "('v, 'p, 'd) env \<Rightarrow> 'p SerializedChange \<Rightarrow> mutex option \<Rightarrow> ('v, 'p) world
     \<Rightarrow> completion \<times> ('v, 'p) world" where
  "applyConfigLockedChange E change configLock w =
     (if configLock \<noteq> None \<and> startsWith (path change) ''config''
      then (Completed, runExclusive change w)
      else call_applyChanges E change w)"

subsection \<open>registerRendererIpc\<close>

definition ipc_store_update ::
  "('v, 'p, 'd) env \<Rightarrow> 'p SerializedChange \<Rightarrow> ('v, 'p) world \<Rightarrow> completion \<times> ('v, 'p) world" where
  "ipc_store_update E change w =
     (case applyConfigLockedChange E change (Some ConfigMutex) w of
        (Uncaught, w') \<Rightarrow> (Uncaught, w')
      | (Completed, w') \<Rightarrow> (Completed, emit (Ipc_send ''store-update-done'') w'))"

definition ipc_store_init ::
  "('v, 'p, 'd) env \<Rightarrow> 'd \<Rightarrow> ('v, 'p) world \<Rightarrow> completion \<times> ('v, 'p) world" where
  "ipc_store_init E data w =
     (case deserialize E data of
        None \<Rightarrow> (Uncaught, w)
      | Some values \<Rightarrow> (Completed, emit (Sender_send ''store-init-done'') (mobx_set E values w)))"


subsection \<open>registerWebsocketListener\<close>

text \<open>\<open>done?.()\<close>: the callback is called when the sender supplied one.\<close>

definition call_done :: "bool \<Rightarrow> ('v, 'p) world \<Rightarrow> ('v, 'p) world" where
  "call_done has_done w = (if has_done then emit Done_called w else w)"

definition ws_store_update ::
  "('v, 'p, 'd) env \<Rightarrow> mutex option \<Rightarrow> 'p SerializedChange \<Rightarrow> bool \<Rightarrow> ('v, 'p) world
     \<Rightarrow> completion \<times> ('v, 'p) world" where
  "ws_store_update E configLock change has_done w =
     (case applyConfigLockedChange E change configLock w of
        (Uncaught, w') \<Rightarrow> (Uncaught, w')
      | (Completed, w') \<Rightarrow> (Completed, call_done has_done w'))"

definition ws_store_init ::
  "('v, 'p, 'd) env \<Rightarrow> 'd \<Rightarrow> bool \<Rightarrow> ('v, 'p) world \<Rightarrow> completion \<times> ('v, 'p) world" where
  "ws_store_init E data has_done w =
     (case deserialize E data of
        None \<Rightarrow> (Uncaught, w)
      | Some values \<Rightarrow> (Completed, call_done has_done (mobx_set E values w)))"

definition registerWebsocketListener :: "mutex option \<Rightarrow> ('v, 'p) world \<Rightarrow> ('v, 'p) world" where
  "registerWebsocketListener configLock w = w\<lparr>ws_listening := Some configLock\<rparr>"

subsection \<open>Delivery of a message, and the job queue\<close>

definition ipc_deliver ::
  "('v, 'p, 'd) env \<Rightarrow> ('p, 'd) message \<Rightarrow> ('v, 'p) world \<Rightarrow> completion \<times> ('v, 'p) world" where
  "ipc_deliver E m w =
     (if ipc_listening w
      then (case m of
              Store_update change \<Rightarrow> ipc_store_update E change w
            | Store_init data \<Rightarrow> ipc_store_init E data w)
      else (Completed, w))"

definition ws_deliver ::
  "('v, 'p, 'd) env \<Rightarrow> ('p, 'd) message \<Rightarrow> bool \<Rightarrow> ('v, 'p) world
     \<Rightarrow> completion \<times> ('v, 'p) world" where
  "ws_deliver E m has_done w =
     (case ws_listening w of
        None \<Rightarrow> (Completed, w)
      | Some configLock \<Rightarrow>
          (case m of
             Store_update change \<Rightarrow> ws_store_update E configLock change has_done w
           | Store_init data \<Rightarrow> ws_store_init E data has_done w))"

text \<open>
  One job of the microtask queue. \<open>Acquired c\<close> resumes \<open>runExclusive\<close> after the lock was
  granted: it calls the callback; a throw releases at once and rejects the Promise, which
  nobody handles; a return schedules the release. \<open>Releasing\<close> is that release.
\<close>

fun run_job :: "('v, 'p, 'd) env \<Rightarrow> 'p job \<Rightarrow> ('v, 'p) world \<Rightarrow> ('v, 'p) world" where
  "run_job E (Acquired c) w =
     (case call_applyChanges E c w of
        (Completed, w') \<Rightarrow> w'\<lparr>jobs := jobs w' @ [Releasing]\<rparr>
      | (Uncaught, w') \<Rightarrow> emit Unhandled_rejection (release w'))"
| "run_job E Releasing w = release w"

definition step :: "('v, 'p, 'd) env \<Rightarrow> ('v, 'p) world \<Rightarrow> ('v, 'p) world" where
  "step E w = (case jobs w of [] \<Rightarrow> w | j # js \<Rightarrow> run_job E j (w\<lparr>jobs := js\<rparr>))"

fun job_weight :: "'p job \<Rightarrow> nat" where
  "job_weight (Acquired c) = 2"
| "job_weight Releasing = 1"

definition pending :: "('v, 'p) world \<Rightarrow> nat" where
  "pending w = 3 * length (waiting w) + sum_list (map job_weight (jobs w))"

text \<open>
  The microtask queue is run until it is empty before the next listener is called.
  Every job lowers \<open>pending\<close>, so the loop ends.
\<close>

function drain :: "('v, 'p, 'd) env \<Rightarrow> ('v, 'p) world \<Rightarrow> ('v, 'p) world" where
  "drain E w = (case jobs w of [] \<Rightarrow> w | j # js \<Rightarrow> drain E (run_job E j (w\<lparr>jobs := js\<rparr>)))"
  by pat_completeness auto

text \<open>An event: the listener runs to its end, then the jobs it left behind.\<close>

definition ipc_event ::
  "('v, 'p, 'd) env \<Rightarrow> ('p, 'd) message \<Rightarrow> ('v, 'p) world \<Rightarrow> completion \<times> ('v, 'p) world" where
  "ipc_event E m w = (case ipc_deliver E m w of (r, w') \<Rightarrow> (r, drain E w'))"

definition ws_event ::
  "('v, 'p, 'd) env \<Rightarrow> ('p, 'd) message \<Rightarrow> bool \<Rightarrow> ('v, 'p) world
     \<Rightarrow> completion \<times> ('v, 'p) world" where
  "ws_event E m has_done w = (case ws_deliver E m has_done w of (r, w') \<Rightarrow> (r, drain E w'))"

text \<open>Between two events nothing holds the lock and no job is pending.\<close>

definition idle :: "('v, 'p) world \<Rightarrow> bool" where
  "idle w = (\<not> locked w \<and> waiting w = [] \<and> jobs w = [])"

text \<open>
  The worlds the listeners and the jobs produce from an idle one: the lock is held
  exactly while one job of its holder is pending, and waiters wait only for a held lock.
\<close>

definition consistent :: "('v, 'p) world \<Rightarrow> bool" where
  "consistent w =
     (case jobs w of
        [] \<Rightarrow> \<not> locked w \<and> waiting w = []
      | [j] \<Rightarrow> locked w
      | _ \<Rightarrow> False)"

text \<open>The store a call of \<open>applyChanges\<close> leaves behind, however it ends.\<close>

fun store_after :: "'a outcome \<Rightarrow> 'a" where
  "store_after (Returned s) = s"
| "store_after (Threw s) = s"

text \<open>The events a run added to the trace.\<close>

definition new_events :: "('v, 'p) world \<Rightarrow> ('v, 'p) world \<Rightarrow> 'p event list" where
  "new_events w w' = drop (length (trace w)) (trace w')"

text \<open>What a \<open>config-update\<close> handler sends for a change when the lock is free.\<close>

fun config_update :: "'p SerializedChange \<Rightarrow> observer \<Rightarrow> 'p event" where
  "config_update change RendererConfigIpc = Ipc_send_change ''config-update'' change"
| "config_update change WebsocketConfigListener = Ws_emit ''config-update'' change"

text \<open>
  What the registered handlers send for a list of observed changes: nothing under the
  lock, and otherwise one message for each change and handler, in order.
\<close>

definition notifications :: "'p SerializedChange list \<Rightarrow> ('v, 'p) world \<Rightarrow> 'p event list" where
  "notifications changes w =
     (if locked w then []
      else concat (map (\<lambda>change. map (config_update change) (observers w)) changes))"

text \<open>Two worlds that differ at most in what was logged.\<close>

definition same_state :: "('v, 'p) world \<Rightarrow> ('v, 'p) world \<Rightarrow> bool" where
  "same_state w w' =
     (store w = store w' \<and> locked w = locked w' \<and> waiting w = waiting w' \<and> jobs w = jobs w'
      \<and> observers w = observers w' \<and> ipc_listening w = ipc_listening w'
      \<and> ws_listening w = ws_listening w')"

text \<open>The acknowledgement the IPC listener of a message sends.\<close>

fun ipc_ack :: "('p, 'd) message \<Rightarrow> 'p event" where
  "ipc_ack (Store_update change) = Ipc_send ''store-update-done''"
| "ipc_ack (Store_init data) = Sender_send ''store-init-done''"

subsection \<open>The host's snapshot\<close>

text \<open>
  Modelled from the spec: the host's side of the hydration handshake and the snapshot
  codec, which are not among the sources (the host's listener, the \<open>AppStore\<close> schema
  and serializr are absent). Section 4.5, step 2: the host answers \<open>subscribe\<close> with
  \<open>init\<close>, carrying a full Snapshot of the authoritative Store. Section 4.2:
  \<open>snapshot(Store) -> Wire\<close> and \<open>restore(Wire) -> Store-shaped data\<close> round-trip the
  whole tree, for primitives and nested objects and arrays. The host's store is an object:
  its properties in order, each holding a tree of values; the wire form is the plain tree
  of the same shape, and only an object restores to a store.
\<close>

datatype prim = PNull | PBool bool | PNum int | PStr string








subsection \<open>An example environment\<close>

text \<open>
  A store of numbers. A change sets the field named by its path, and throws when it
  carries no value; a snapshot is a list of fields, and the empty list does not decode;
  the observer reports a change of the field \<open>config\<close>.
\<close>

definition ex_env :: "(nat, nat option, (string \<times> nat) list) env" where
  "ex_env = \<lparr>
     applyChanges = (\<lambda>s c. case rest c of None \<Rightarrow> Threw s | Some v \<Rightarrow> Returned (s(path c \<mapsto> v))),
     deserialize = (\<lambda>d. if d = [] then None else Some (map_of d)),
     observed = (\<lambda>s s'. if s ''config'' = s' ''config'' then []
                         else [\<lparr>path = ''config'', rest = s' ''config''\<rparr>]) \<rparr>"

definition ex_world :: "(nat, nat option) world" where
  "ex_world = \<lparr> store = [''config'' \<mapsto> 5, ''playlist'' \<mapsto> 0], locked = False, waiting = [],
     jobs = [], trace = [], observers = [RendererConfigIpc], ipc_listening = True,
     ws_listening = Some (Some ConfigMutex) \<rparr>"




section \<open>Frame lemmas\<close>

lemma emit_frame:
  "store (emit e w) = store w"
  "locked (emit e w) = locked w"
  "waiting (emit e w) = waiting w"
  "jobs (emit e w) = jobs w"
  "observers (emit e w) = observers w"
  "ipc_listening (emit e w) = ipc_listening w"
  "ws_listening (emit e w) = ws_listening w"
  "trace (emit e w) = trace w @ [e]"
  by (simp_all add: emit_def)

lemma config_handler_frame:
  "store (config_handler ob c w) = store w"
  "locked (config_handler ob c w) = locked w"
  "waiting (config_handler ob c w) = waiting w"
  "jobs (config_handler ob c w) = jobs w"
  "observers (config_handler ob c w) = observers w"
  "ipc_listening (config_handler ob c w) = ipc_listening w"
  "ws_listening (config_handler ob c w) = ws_listening w"
  by (simp_all add: config_handler_def emit_def split: observer.split)

lemma handlers_frame:
  "store (fold (\<lambda>ob. config_handler ob c) obs w) = store w"
  "locked (fold (\<lambda>ob. config_handler ob c) obs w) = locked w"
  "waiting (fold (\<lambda>ob. config_handler ob c) obs w) = waiting w"
  "jobs (fold (\<lambda>ob. config_handler ob c) obs w) = jobs w"
  "observers (fold (\<lambda>ob. config_handler ob c) obs w) = observers w"
  "ipc_listening (fold (\<lambda>ob. config_handler ob c) obs w) = ipc_listening w"
  "ws_listening (fold (\<lambda>ob. config_handler ob c) obs w) = ws_listening w"
  by (induction obs arbitrary: w; simp add: config_handler_frame)+

lemma notify_frame:
  "store (notify cs w) = store w"
  "locked (notify cs w) = locked w"
  "waiting (notify cs w) = waiting w"
  "jobs (notify cs w) = jobs w"
  "observers (notify cs w) = observers w"
  "ipc_listening (notify cs w) = ipc_listening w"
  "ws_listening (notify cs w) = ws_listening w"
  unfolding notify_def
  by (induction cs arbitrary: w; simp add: handlers_frame)+

lemma mutate_frame:
  "store (mutate E s' w) = s'"
  "locked (mutate E s' w) = locked w"
  "waiting (mutate E s' w) = waiting w"
  "jobs (mutate E s' w) = jobs w"
  "observers (mutate E s' w) = observers w"
  "ipc_listening (mutate E s' w) = ipc_listening w"
  "ws_listening (mutate E s' w) = ws_listening w"
  by (simp_all add: mutate_def notify_frame)

lemma call_applyChanges_frame:
  "store (snd (call_applyChanges E c w)) = store_after (applyChanges E (store w) c)"
  "locked (snd (call_applyChanges E c w)) = locked w"
  "waiting (snd (call_applyChanges E c w)) = waiting w"
  "jobs (snd (call_applyChanges E c w)) = jobs w"
  "observers (snd (call_applyChanges E c w)) = observers w"
  by (simp_all add: call_applyChanges_def emit_def mutate_frame split: outcome.split)

section \<open>The job queue empties\<close>

lemma pending_dispatch: "pending (dispatch w) \<le> pending w"
  by (simp add: dispatch_def pending_def split: list.split)

lemma pending_release: "pending (release w) \<le> pending w"
  unfolding release_def
  by (rule order_trans[OF pending_dispatch]) (simp add: pending_def)

lemma pending_run_job:
  "pending (run_job E j (w\<lparr>jobs := js\<rparr>)) < pending (w\<lparr>jobs := j # js\<rparr>)"
proof (cases j)
  case (Acquired c)
  obtain r w' where cw: "call_applyChanges E c (w\<lparr>jobs := js\<rparr>) = (r, w')"
    by (cases "call_applyChanges E c (w\<lparr>jobs := js\<rparr>)")
  have fr: "waiting w' = waiting w" "jobs w' = js"
    using call_applyChanges_frame(3,4)[of E c "w\<lparr>jobs := js\<rparr>"] cw by simp_all
  show ?thesis
  proof (cases r)
    case Completed
    then show ?thesis using Acquired cw fr by (simp add: pending_def)
  next
    case Uncaught
    have "pending (emit Unhandled_rejection (release w')) = pending (release w')"
      by (simp add: pending_def emit_def)
    also have "\<dots> \<le> pending w'" by (rule pending_release)
    also have "\<dots> < pending (w\<lparr>jobs := j # js\<rparr>)"
      using Acquired fr by (simp add: pending_def)
    finally show ?thesis using Acquired cw Uncaught by simp
  qed
next
  case Releasing
  have "pending (release (w\<lparr>jobs := js\<rparr>)) \<le> pending (w\<lparr>jobs := js\<rparr>)"
    by (rule pending_release)
  also have "\<dots> < pending (w\<lparr>jobs := j # js\<rparr>)"
    using Releasing by (simp add: pending_def)
  finally show ?thesis using Releasing by simp
qed

termination drain
proof (relation "measure (\<lambda>(E, w). pending w)")
  show "wf (measure (\<lambda>(E, w). pending w))" by simp
next
  fix E :: "('v, 'p, 'd) env" and w :: "('v, 'p) world" and j js
  assume "jobs w = j # js"
  then have "w\<lparr>jobs := j # js\<rparr> = w" by simp
  then show "((E, run_job E j (w\<lparr>jobs := js\<rparr>)), (E, w)) \<in> measure (\<lambda>(E, w). pending w)"
    using pending_run_job[where E=E and j=j and w=w and js=js] by simp
qed

declare drain.simps [simp del]

lemma drain_Nil: "jobs w = [] \<Longrightarrow> drain E w = w"
  by (subst drain.simps) simp

lemma drain_Cons: "jobs w = j # js \<Longrightarrow> drain E w = drain E (run_job E j (w\<lparr>jobs := js\<rparr>))"
  by (subst drain.simps) simp

section \<open>What each call does to the world\<close>

lemma config_handler_eq:
  "config_handler ob c w = (if locked w then w else emit (config_update c ob) w)"
  by (cases ob) (simp_all add: config_handler_def isLocked_def)

lemma handlers_eq:
  "fold (\<lambda>ob. config_handler ob c) obs w =
     w\<lparr>trace := trace w @ (if locked w then [] else map (config_update c) obs)\<rparr>"
  by (induction obs arbitrary: w) (simp_all add: config_handler_eq emit_def)

lemma notify_eq: "notify cs w = w\<lparr>trace := trace w @ notifications cs w\<rparr>"
  unfolding notify_def notifications_def
  by (induction cs arbitrary: w) (simp_all add: handlers_eq)

lemma mutate_eq:
  "mutate E s' w = w\<lparr>store := s', trace := trace w @ notifications (observed E (store w) s') w\<rparr>"
  by (simp add: mutate_def notify_eq notifications_def)

lemma notifications_locked: "locked w \<Longrightarrow> notifications cs w = []"
  by (simp add: notifications_def)

lemma config_update_not_done: "Done_called \<noteq> config_update c ob"
  by (cases ob) simp_all

lemma done_not_notified: "Done_called \<notin> set (notifications cs w)"
  by (auto simp add: notifications_def config_update_not_done)

lemma call_applyChanges_eq:
  "call_applyChanges E c w =
     (case applyChanges E (store w) c of
        Returned s' \<Rightarrow> (Completed, w\<lparr>store := s',
           trace := trace w @ notifications (observed E (store w) s') w @ [Applied c]\<rparr>)
      | Threw s' \<Rightarrow> (Uncaught, w\<lparr>store := s',
           trace := trace w @ notifications (observed E (store w) s') w @ [Apply_threw c]\<rparr>))"
  by (simp add: call_applyChanges_def mutate_eq emit_def split: outcome.split)

lemma mobx_set_eq:
  "mobx_set E values w = w\<lparr>store := store w ++ values,
     trace := trace w @ notifications (observed E (store w) (store w ++ values)) w @ [Installed]\<rparr>"
  by (simp add: mobx_set_def mutate_eq emit_def)






lemma runExclusive_free:
  "\<not> locked w \<Longrightarrow> waiting w = [] \<Longrightarrow>
     runExclusive c w = w\<lparr>locked := True, jobs := jobs w @ [Acquired c]\<rparr>"
  by (simp add: runExclusive_def acquire_def dispatch_def isLocked_def)

lemma release_last: "waiting w = [] \<Longrightarrow> release w = w\<lparr>locked := False\<rparr>"
  by (simp add: release_def dispatch_def)

lemma new_events_append: "trace w' = trace w @ evs \<Longrightarrow> new_events w w' = evs"
  by (simp add: new_events_def)

lemma applyConfigLockedChange_trace:
  "\<exists>evs. trace (snd (applyConfigLockedChange E c l w)) = trace w @ evs \<and> Done_called \<notin> set evs"
  by (auto simp add: applyConfigLockedChange_def runExclusive_def acquire_def dispatch_def
      Let_def call_applyChanges_eq done_not_notified split: outcome.split list.split)

lemma ws_store_update_no_done:
  "ws_store_update E l c False w = applyConfigLockedChange E c l w"
  by (cases "applyConfigLockedChange E c l w")
    (auto simp add: ws_store_update_def call_done_def split: completion.split)

text \<open>
  The jobs of one holder of the lock, with nobody waiting: the callback runs, and the
  lock is free when the queue is empty, whether the callback returned or threw.
\<close>

lemma drain_holder:
  assumes "locked w" "waiting w = []" "jobs w = [Acquired c]"
  shows "drain E w =
     (case applyChanges E (store w) c of
        Returned s' \<Rightarrow> w\<lparr>store := s', locked := False, jobs := [], trace := trace w @ [Applied c]\<rparr>
      | Threw s' \<Rightarrow> w\<lparr>store := s', locked := False, jobs := [],
           trace := trace w @ [Apply_threw c, Unhandled_rejection]\<rparr>)"
proof (cases "applyChanges E (store w) c")
  case (Returned s')
  let ?w1 = "run_job E (Acquired c) (w\<lparr>jobs := []\<rparr>)"
  have w1: "?w1 = w\<lparr>store := s', jobs := [Releasing], trace := trace w @ [Applied c]\<rparr>"
    using assms Returned by (simp add: call_applyChanges_eq notifications_locked)
  have "drain E w = drain E ?w1" using assms by (simp add: drain_Cons)
  also have "\<dots> = drain E (run_job E Releasing (?w1\<lparr>jobs := []\<rparr>))"
    unfolding w1 by (rule drain_Cons) simp
  also have "run_job E Releasing (?w1\<lparr>jobs := []\<rparr>) =
       w\<lparr>store := s', locked := False, jobs := [], trace := trace w @ [Applied c]\<rparr>"
    unfolding w1 using assms by (simp add: release_last)
  also have "drain E \<dots> = \<dots>" by (rule drain_Nil) simp
  finally show ?thesis using Returned by simp
next
  case (Threw s')
  let ?w1 = "run_job E (Acquired c) (w\<lparr>jobs := []\<rparr>)"
  have w1: "?w1 = w\<lparr>store := s', locked := False, jobs := [],
       trace := trace w @ [Apply_threw c, Unhandled_rejection]\<rparr>"
    using assms Threw by (simp add: call_applyChanges_eq notifications_locked release_last emit_def)
  have "drain E w = drain E ?w1" using assms by (simp add: drain_Cons)
  also have "\<dots> = ?w1" unfolding w1 by (rule drain_Nil) simp
  finally show ?thesis unfolding w1 using Threw by simp
qed

lemma store_after_apply:
  assumes "idle w"
  shows "store (drain E (snd (applyConfigLockedChange E change configLock w)))
         = store_after (applyChanges E (store w) change)"
proof (cases "configLock \<noteq> None \<and> startsWith (path change) ''config''")
  case True
  have "drain E (runExclusive change w) = drain E (w\<lparr>locked := True, jobs := [Acquired change]\<rparr>)"
    using assms by (simp add: runExclusive_free idle_def)
  then show ?thesis using True assms
    by (simp add: applyConfigLockedChange_def drain_holder idle_def split: outcome.split)
next
  case False
  have "jobs (snd (call_applyChanges E change w)) = []"
    using assms by (simp add: call_applyChanges_frame idle_def)
  then show ?thesis using False
    by (auto simp add: applyConfigLockedChange_def drain_Nil call_applyChanges_frame)
qed

subsection \<open>The trace does not steer the run\<close>

lemma same_state_refl: "same_state w w"
  by (simp add: same_state_def)

lemma same_state_run_job:
  "same_state w w' \<Longrightarrow> same_state (run_job E j (w\<lparr>jobs := js\<rparr>)) (run_job E j (w'\<lparr>jobs := js\<rparr>))"
  by (cases j)
    (auto simp add: same_state_def call_applyChanges_eq release_def dispatch_def emit_def
      split: outcome.split list.split)

lemma same_state_drain:
  "same_state w w' \<Longrightarrow> same_state (drain E w) (drain E w')"
proof (induction E w arbitrary: w' rule: drain.induct)
  case (1 E w)
  show ?case
  proof (cases "jobs w")
    case Nil
    then have "jobs w' = []" using "1.prems" by (simp add: same_state_def)
    then show ?thesis using Nil "1.prems" by (simp add: drain_Nil)
  next
    case (Cons j js)
    then have j': "jobs w' = j # js" using "1.prems" by (simp add: same_state_def)
    have "same_state (drain E (run_job E j (w\<lparr>jobs := js\<rparr>))) (drain E (run_job E j (w'\<lparr>jobs := js\<rparr>)))"
      by (rule "1.IH"[OF Cons]) (rule same_state_run_job[OF "1.prems"])
    then show ?thesis using Cons j' by (simp add: drain_Cons)
  qed
qed

lemma same_state_call_done: "same_state w w' \<Longrightarrow> same_state (emit e w) (call_done b w')"
  by (simp add: same_state_def emit_def call_done_def)

subsection \<open>The lock is given back\<close>

lemma idle_consistent: "idle w \<Longrightarrow> consistent w"
  by (simp add: idle_def consistent_def)

lemma consistent_release:
  "jobs w = [] \<Longrightarrow> consistent (release w)"
  by (simp add: consistent_def release_def dispatch_def split: list.split)

lemma consistent_emit: "consistent (emit e w) = consistent w"
  by (simp add: consistent_def emit_def split: list.split)

lemma consistent_run_job:
  assumes "consistent w" and "jobs w = j # js"
  shows "consistent (run_job E j (w\<lparr>jobs := js\<rparr>))"
proof -
  have js: "js = []" and l: "locked w"
    using assms by (simp_all add: consistent_def split: list.splits)
  show ?thesis
  proof (cases j)
    case (Acquired c)
    show ?thesis
    proof (cases "applyChanges E (store w) c")
      case (Returned s')
      then show ?thesis using Acquired js l
        by (simp add: call_applyChanges_eq consistent_def)
    next
      case (Threw s')
      obtain w' where c: "call_applyChanges E c (w\<lparr>jobs := []\<rparr>) = (Uncaught, w')"
        using Threw by (simp add: call_applyChanges_def)
      have "jobs w' = []"
        using call_applyChanges_frame(4)[of E c "w\<lparr>jobs := []\<rparr>"] c by simp
      then have "consistent (emit Unhandled_rejection (release w'))"
        by (simp add: consistent_emit consistent_release)
      then show ?thesis using Acquired js c by simp
    qed
  next
    case Releasing
    then show ?thesis using js by (simp add: consistent_release)
  qed
qed

lemma consistent_drain: "consistent w \<Longrightarrow> idle (drain E w)"
proof (induction E w rule: drain.induct)
  case (1 E w)
  show ?case
  proof (cases "jobs w")
    case Nil
    then show ?thesis using "1.prems" by (simp add: drain_Nil consistent_def idle_def)
  next
    case (Cons j js)
    have "idle (drain E (run_job E j (w\<lparr>jobs := js\<rparr>)))"
      by (rule "1.IH"[OF Cons]) (rule consistent_run_job[OF "1.prems" Cons])
    then show ?thesis using Cons by (simp add: drain_Cons)
  qed
qed

lemma consistent_runExclusive:
  "consistent w \<Longrightarrow> consistent (runExclusive c w) \<and> locked (runExclusive c w)"
  by (auto simp add: consistent_def runExclusive_def acquire_def dispatch_def isLocked_def Let_def
      split: list.splits)

section \<open>The loop guard\<close>

text \<open>
  Claim C1. While the config lock is held, the handlers registered by
  \<open>registerRendererConfigIpc\<close> and \<open>registerWebsocketConfigListener\<close> send no
  \<open>config-update\<close> for an observed change, although the store was mutated; a handler
  sends exactly when \<open>isLocked()\<close> is false at the moment it is called. The first two
  conjuncts are about one call of a handler; the next two about a mutation of the store
  with any handlers registered; the last two say what registration adds.
\<close>

theorem config_update_only_when_unlocked:
  "new_events w (config_handler ob change w)
      = (if isLocked w then [] else [config_update change ob])
   \<and> store (config_handler ob change w) = store w
   \<and> store (mutate E s' w) = s'
   \<and> new_events w (mutate E s' w)
      = (if isLocked w then []
         else concat (map (\<lambda>c. map (config_update c) (observers w)) (observed E (store w) s')))
   \<and> observers (registerRendererConfigIpc w) = observers w @ [RendererConfigIpc]
   \<and> observers (registerWebsocketConfigListener w) = observers w @ [WebsocketConfigListener]"
  by (simp add: config_handler_eq isLocked_def emit_def mutate_eq notifications_def new_events_def
      registerRendererConfigIpc_def registerWebsocketConfigListener_def)

theorem config_update_only_when_unlocked_witness:
  "isLocked (ex_world\<lparr>locked := True\<rparr>)
   \<and> store (mutate ex_env [''config'' \<mapsto> 8] (ex_world\<lparr>locked := True\<rparr>)) = [''config'' \<mapsto> 8]
   \<and> new_events (ex_world\<lparr>locked := True\<rparr>)
        (mutate ex_env [''config'' \<mapsto> 8] (ex_world\<lparr>locked := True\<rparr>)) = []
   \<and> \<not> isLocked ex_world
   \<and> new_events ex_world (mutate ex_env [''config'' \<mapsto> 8] ex_world)
        = [Ipc_send_change ''config-update'' \<lparr>path = ''config'', rest = Some 8\<rparr>]"
proof -
  let ?c = "\<lparr>path = ''config'', rest = Some (8::nat)\<rparr>"
  let ?l = "ex_world\<lparr>locked := True\<rparr>"
  have l: "isLocked ?l" "\<not> isLocked ex_world"
    by (simp_all add: isLocked_def ex_world_def)
  have o: "concat (map (\<lambda>c. map (config_update c) (observers ex_world))
              (observed ex_env (store ex_world) [''config'' \<mapsto> 8]))
            = [Ipc_send_change ''config-update'' ?c]"
    by (simp add: ex_world_def ex_env_def)
  note a = config_update_only_when_unlocked[of ?l RendererConfigIpc ?c ex_env "[''config'' \<mapsto> 8]"]
  note b = config_update_only_when_unlocked[of ex_world RendererConfigIpc ?c ex_env "[''config'' \<mapsto> 8]"]
  have a1: "store (mutate ex_env [''config'' \<mapsto> 8] ?l) = [''config'' \<mapsto> 8]"
    using a by blast
  have a2: "new_events ?l (mutate ex_env [''config'' \<mapsto> 8] ?l) = []"
    using a l(1) by presburger
  have b1: "new_events ex_world (mutate ex_env [''config'' \<mapsto> 8] ex_world)
        = [Ipc_send_change ''config-update'' ?c]"
    using b l(2) o by presburger
  show ?thesis by (intro conjI) (fact l a1 a2 b1)+
qed



section \<open>Acknowledgement and release\<close>

text \<open>
  Claim C3. A receiver of \<open>store-update\<close> should send its acknowledgement only after the
  change is applied. For a change of the config subtree the code does not: the listener
  calls \<open>applyConfigLockedChange\<close>, which hands the apply to \<open>runExclusive\<close> and drops
  the Promise, and sends \<open>store-update-done\<close> at once. In the example, when the listener
  returns the acknowledgement is on the wire, the store is untouched and the apply is
  still a pending job; the event as a whole logs the acknowledgement before the apply.
  For a path outside the config subtree the same listener applies first and acknowledges
  after.
\<close>

theorem store_update_done_precedes_apply:
  "ipc_deliver ex_env (Store_update \<lparr>path = ''config.volume'', rest = Some 8\<rparr>) ex_world =
     (Completed, ex_world\<lparr>locked := True,
        jobs := [Acquired \<lparr>path = ''config.volume'', rest = Some 8\<rparr>],
        trace := [Ipc_send ''store-update-done'']\<rparr>)
   \<and> ipc_event ex_env (Store_update \<lparr>path = ''config.volume'', rest = Some 8\<rparr>) ex_world =
     (Completed, ex_world\<lparr>store := [''config'' \<mapsto> 5, ''playlist'' \<mapsto> 0, ''config.volume'' \<mapsto> 8],
        trace := [Ipc_send ''store-update-done'',
                  Applied \<lparr>path = ''config.volume'', rest = Some 8\<rparr>]\<rparr>)
   \<and> ipc_deliver ex_env (Store_update \<lparr>path = ''playlist'', rest = Some 1\<rparr>) ex_world =
     (Completed, ex_world\<lparr>store := [''config'' \<mapsto> 5, ''playlist'' \<mapsto> 1],
        trace := [Applied \<lparr>path = ''playlist'', rest = Some 1\<rparr>,
                  Ipc_send ''store-update-done'']\<rparr>)"
proof -
  let ?c = "\<lparr>path = ''config.volume'', rest = Some (8::nat)\<rparr>"
  let ?w1 = "ex_world\<lparr>locked := True, jobs := [Acquired ?c], trace := [Ipc_send ''store-update-done'']\<rparr>"
  have d: "ipc_deliver ex_env (Store_update ?c) ex_world = (Completed, ?w1)"
    by (simp add: ipc_deliver_def ipc_store_update_def applyConfigLockedChange_def startsWith_def
        runExclusive_def acquire_def dispatch_def isLocked_def emit_def ex_world_def)
  have "drain ex_env ?w1 = ex_world\<lparr>store := [''config'' \<mapsto> 5, ''playlist'' \<mapsto> 0, ''config.volume'' \<mapsto> 8],
        trace := [Ipc_send ''store-update-done'', Applied ?c]\<rparr>"
    by (subst drain_holder[where c = ?c]) (simp_all add: ex_world_def ex_env_def)
  then have e: "ipc_event ex_env (Store_update ?c) ex_world =
     (Completed, ex_world\<lparr>store := [''config'' \<mapsto> 5, ''playlist'' \<mapsto> 0, ''config.volume'' \<mapsto> 8],
        trace := [Ipc_send ''store-update-done'', Applied ?c]\<rparr>)"
    using d by (simp add: ipc_event_def)
  have s: "ipc_deliver ex_env (Store_update \<lparr>path = ''playlist'', rest = Some 1\<rparr>) ex_world =
     (Completed, ex_world\<lparr>store := [''config'' \<mapsto> 5, ''playlist'' \<mapsto> 1],
        trace := [Applied \<lparr>path = ''playlist'', rest = Some 1\<rparr>,
                  Ipc_send ''store-update-done'']\<rparr>)"
    by (simp add: ipc_deliver_def ipc_store_update_def applyConfigLockedChange_def startsWith_def
        call_applyChanges_eq notifications_def emit_def ex_world_def ex_env_def)
  show ?thesis using d e s by (intro conjI)
qed

text \<open>
  Claim C4. A change of the config subtree applied through the lock. In every world the
  listeners and jobs can produce, the lock is held once the call returns, and when the
  jobs have run the lock is free, nobody waits and no job is left, whether
  \<open>applyChanges\<close> returned or threw, for this change and for every change queued
  before it: the next config change can take the lock. When the change arrives with the
  lock free, the apply is the one pending job; the lock is still held when
  \<open>applyChanges\<close> ends; a throw frees it at the end of that same job, and a return
  in the job that follows, before anything else runs.
\<close>

theorem lock_released_on_every_exit:
  assumes "consistent w" and "startsWith (path change) ''config''"
  shows "let w1 = snd (applyConfigLockedChange E change (Some ConfigMutex) w) in
           isLocked w1 \<and> idle (drain E w1)
           \<and> (idle w \<longrightarrow>
                jobs w1 = [Acquired change]
                \<and> isLocked (snd (call_applyChanges E change (w1\<lparr>jobs := []\<rparr>)))
                \<and> (case applyChanges E (store w) change of
                     Returned s' \<Rightarrow> isLocked (step E w1) \<and> \<not> isLocked (step E (step E w1))
                   | Threw s' \<Rightarrow> \<not> isLocked (step E w1)))"
proof -
  have w1: "snd (applyConfigLockedChange E change (Some ConfigMutex) w) = runExclusive change w"
    using assms by (simp add: applyConfigLockedChange_def)
  have g: "isLocked (runExclusive change w) \<and> idle (drain E (runExclusive change w))"
    using consistent_runExclusive[OF assms(1), of change]
      consistent_drain[of "runExclusive change w" E]
    by (simp add: isLocked_def)
  have h: "jobs (runExclusive change w) = [Acquired change]
       \<and> isLocked (snd (call_applyChanges E change (runExclusive change w\<lparr>jobs := []\<rparr>)))
       \<and> (case applyChanges E (store w) change of
            Returned s' \<Rightarrow> isLocked (step E (runExclusive change w))
                           \<and> \<not> isLocked (step E (step E (runExclusive change w)))
          | Threw s' \<Rightarrow> \<not> isLocked (step E (runExclusive change w)))"
    if "idle w"
  proof -
    have r: "runExclusive change w = w\<lparr>locked := True, jobs := [Acquired change]\<rparr>"
      using that by (simp add: runExclusive_free idle_def)
    show ?thesis unfolding r using that
      by (simp add: step_def call_applyChanges_eq call_applyChanges_frame isLocked_def
          release_last idle_def emit_def split: outcome.split)
  qed
  show ?thesis unfolding Let_def w1 using g h by blast
qed

theorem lock_released_on_every_exit_witness:
  "consistent ex_world \<and> idle ex_world \<and> startsWith ''config.volume'' ''config''
   \<and> applyChanges ex_env (store ex_world) \<lparr>path = ''config.volume'', rest = None\<rparr>
        = Threw (store ex_world)
   \<and> isLocked (snd (applyConfigLockedChange ex_env \<lparr>path = ''config.volume'', rest = None\<rparr>
        (Some ConfigMutex) ex_world))
   \<and> \<not> isLocked (step ex_env (snd (applyConfigLockedChange ex_env
        \<lparr>path = ''config.volume'', rest = None\<rparr> (Some ConfigMutex) ex_world)))
   \<and> idle (drain ex_env (snd (applyConfigLockedChange ex_env
        \<lparr>path = ''config.volume'', rest = None\<rparr> (Some ConfigMutex) ex_world)))
   \<and> idle (drain ex_env (snd (applyConfigLockedChange ex_env
        \<lparr>path = ''config.volume'', rest = Some 8\<rparr> (Some ConfigMutex) ex_world)))"
proof -
  let ?c = "\<lparr>path = ''config.volume'', rest = None :: nat option\<rparr>"
  let ?d = "\<lparr>path = ''config.volume'', rest = Some (8::nat)\<rparr>"
  have i: "idle ex_world" by (simp add: idle_def ex_world_def)
  have k: "consistent ex_world" by (simp add: consistent_def ex_world_def)
  have p: "startsWith ''config.volume'' ''config''" by (simp add: startsWith_def)
  have pc: "startsWith (path ?c) ''config''" and pd: "startsWith (path ?d) ''config''"
    using p by simp_all
  have t: "applyChanges ex_env (store ex_world) ?c = Threw (store ex_world)"
    by (simp add: ex_env_def)
  note c = lock_released_on_every_exit[OF k pc, of ex_env, unfolded Let_def t outcome.case]
  note d = lock_released_on_every_exit[OF k pd, of ex_env, unfolded Let_def]
  have c1: "isLocked (snd (applyConfigLockedChange ex_env ?c (Some ConfigMutex) ex_world))"
    using c by blast
  have c2: "\<not> isLocked (step ex_env (snd (applyConfigLockedChange ex_env ?c (Some ConfigMutex) ex_world)))"
    using c i by blast
  have c3: "idle (drain ex_env (snd (applyConfigLockedChange ex_env ?c (Some ConfigMutex) ex_world)))"
    using c by blast
  have d3: "idle (drain ex_env (snd (applyConfigLockedChange ex_env ?d (Some ConfigMutex) ex_world)))"
    using d by blast
  show ?thesis by (intro conjI) (fact k i p t c1 c2 c3 d3)+
qed

section \<open>Hydration\<close>




section \<open>The two transports\<close>

text \<open>
  Claim C6. The IPC listener and the websocket listener, registered with the same lock,
  do the same to the same message: both end the same way (returning or throwing), and
  leave the same store, lock, queue and jobs, right after the listener and after the jobs
  have run, whether or not the websocket sender supplied a callback. When the listener
  returns, each has logged the same events followed by its own acknowledgement:
  \<open>store-update-done\<close> or \<open>store-init-done\<close> on IPC, the call of \<open>done\<close> on the
  websocket.
\<close>

theorem transports_agree:
  assumes "ipc_listening w" and "ws_listening w = Some (Some ConfigMutex)"
  shows "fst (ipc_event E m w) = fst (ws_event E m has_done w)
     \<and> same_state (snd (ipc_deliver E m w)) (snd (ws_deliver E m has_done w))
     \<and> same_state (snd (ipc_event E m w)) (snd (ws_event E m has_done w))
     \<and> store (snd (ipc_event E m w)) = store (snd (ws_event E m has_done w))
     \<and> (fst (ipc_deliver E m w) = Completed \<longrightarrow>
          (\<exists>evs. new_events w (snd (ipc_deliver E m w)) = evs @ [ipc_ack m]
               \<and> new_events w (snd (ws_deliver E m True w)) = evs @ [Done_called]))"
proof -
  have l: "fst (ipc_deliver E m w) = fst (ws_deliver E m has_done w)
     \<and> same_state (snd (ipc_deliver E m w)) (snd (ws_deliver E m has_done w))"
  proof (cases m)
    case (Store_update c)
    obtain r w1 where a: "applyConfigLockedChange E c (Some ConfigMutex) w = (r, w1)"
      by (cases "applyConfigLockedChange E c (Some ConfigMutex) w")
    show ?thesis using assms Store_update a
      by (cases r) (simp_all add: ipc_deliver_def ws_deliver_def ipc_store_update_def
          ws_store_update_def same_state_refl same_state_call_done)
  next
    case (Store_init d)
    show ?thesis using assms Store_init
      by (cases "deserialize E d") (simp_all add: ipc_deliver_def ws_deliver_def ipc_store_init_def
          ws_store_init_def same_state_refl same_state_call_done)
  qed
  then have e: "fst (ipc_event E m w) = fst (ws_event E m has_done w)
     \<and> same_state (snd (ipc_event E m w)) (snd (ws_event E m has_done w))"
    by (simp add: ipc_event_def ws_event_def split_beta same_state_drain)
  have k: "\<exists>evs. new_events w (snd (ipc_deliver E m w)) = evs @ [ipc_ack m]
               \<and> new_events w (snd (ws_deliver E m True w)) = evs @ [Done_called]"
    if c: "fst (ipc_deliver E m w) = Completed"
  proof (cases m)
    case (Store_update c)
    obtain r w1 where a: "applyConfigLockedChange E c (Some ConfigMutex) w = (r, w1)"
      by (cases "applyConfigLockedChange E c (Some ConfigMutex) w")
    obtain evs where t: "trace w1 = trace w @ evs"
      using applyConfigLockedChange_trace[of E c "Some ConfigMutex" w] a by auto
    have "r = Completed" using that assms Store_update a
      by (cases r) (simp_all add: ipc_deliver_def ipc_store_update_def)
    then show ?thesis using assms Store_update a t
      by (simp add: ipc_deliver_def ws_deliver_def ipc_store_update_def ws_store_update_def
          call_done_def emit_def new_events_def)
  next
    case (Store_init d)
    show ?thesis using that assms Store_init
      by (cases "deserialize E d") (simp_all add: ipc_deliver_def ws_deliver_def ipc_store_init_def
          ws_store_init_def call_done_def emit_def new_events_def mobx_set_eq)
  qed
  show ?thesis using l e k by (simp add: same_state_def)
qed

theorem transports_agree_witness:
  "ipc_listening ex_world \<and> ws_listening ex_world = Some (Some ConfigMutex)
   \<and> fst (ipc_deliver ex_env (Store_update \<lparr>path = ''playlist'', rest = Some 1\<rparr>) ex_world) = Completed
   \<and> store (snd (ipc_event ex_env (Store_update \<lparr>path = ''playlist'', rest = Some 1\<rparr>) ex_world))
       = store (snd (ws_event ex_env (Store_update \<lparr>path = ''playlist'', rest = Some 1\<rparr>) True ex_world))
   \<and> (\<exists>evs. new_events ex_world
                (snd (ipc_deliver ex_env (Store_update \<lparr>path = ''playlist'', rest = Some 1\<rparr>) ex_world))
              = evs @ [Ipc_send ''store-update-done'']
          \<and> new_events ex_world
                (snd (ws_deliver ex_env (Store_update \<lparr>path = ''playlist'', rest = Some 1\<rparr>) True ex_world))
              = evs @ [Done_called])"
proof -
  let ?m = "Store_update \<lparr>path = ''playlist'', rest = Some (1::nat)\<rparr> :: (nat option, (string \<times> nat) list) message"
  have l: "ipc_listening ex_world" by (simp add: ex_world_def)
  have s: "ws_listening ex_world = Some (Some ConfigMutex)" by (simp add: ex_world_def)
  have c: "fst (ipc_deliver ex_env ?m ex_world) = Completed"
    by (simp add: ipc_deliver_def ipc_store_update_def applyConfigLockedChange_def startsWith_def
        call_applyChanges_def ex_env_def ex_world_def)
  note t = transports_agree[OF l s, of ex_env ?m True, unfolded ipc_ack.simps]
  have t1: "store (snd (ipc_event ex_env ?m ex_world)) = store (snd (ws_event ex_env ?m True ex_world))"
    using t by blast
  have t2: "\<exists>evs. new_events ex_world (snd (ipc_deliver ex_env ?m ex_world))
              = evs @ [Ipc_send ''store-update-done'']
          \<and> new_events ex_world (snd (ws_deliver ex_env ?m True ex_world)) = evs @ [Done_called]"
    using t c by blast
  show ?thesis by (intro conjI) (fact l s c t1 t2)+
qed




section \<open>The config test and the snapshot path\<close>

text \<open>
  Claim C8. The config test of \<open>applyConfigLockedChange\<close> is \<open>path.startsWith('config')\<close>,
  a test on characters: it holds exactly for the strings that begin with \<open>config\<close>,
  whatever follows, and every such change goes through the lock. The top-level key
  \<open>configuration\<close> is not inside the config subtree and is routed through the lock too.
\<close>

theorem config_test_is_prefix:
  "(startsWith p ''config'' \<longleftrightarrow> (\<exists>s. p = ''config'' @ s))
   \<and> (startsWith (path change) ''config'' \<longrightarrow>
        applyConfigLockedChange E change (Some ConfigMutex) w = (Completed, runExclusive change w))
   \<and> startsWith ''configuration'' ''config''
   \<and> applyConfigLockedChange E \<lparr>path = ''configuration'', rest = r\<rparr> (Some ConfigMutex) w
        = (Completed, runExclusive \<lparr>path = ''configuration'', rest = r\<rparr> w)"
proof -
  have "startsWith p ''config'' \<longleftrightarrow> (\<exists>s. p = ''config'' @ s)"
  proof
    assume "startsWith p ''config''"
    then have "take (length ''config'') p = ''config''" by (simp only: startsWith_def)
    then have "p = ''config'' @ drop (length ''config'') p"
      by (metis append_take_drop_id)
    then show "\<exists>s. p = ''config'' @ s" ..
  next
    assume "\<exists>s. p = ''config'' @ s"
    then show "startsWith p ''config''" by (auto simp add: startsWith_def)
  qed
  then show ?thesis by (simp add: applyConfigLockedChange_def startsWith_def)
qed

theorem config_test_is_prefix_witness:
  "startsWith ''configuration'' ''config''
   \<and> applyConfigLockedChange ex_env \<lparr>path = ''configuration'', rest = Some 2\<rparr> (Some ConfigMutex) ex_world
        = (Completed, ex_world\<lparr>locked := True,
             jobs := [Acquired \<lparr>path = ''configuration'', rest = Some 2\<rparr>]\<rparr>)"
proof -
  let ?c = "\<lparr>path = ''configuration'', rest = Some (2::nat)\<rparr>"
  note t = config_test_is_prefix[of "''configuration''" ?c ex_env ex_world "Some 2",
      unfolded SerializedChange.select_convs]
  have a: "startsWith ''configuration'' ''config''" using t by blast
  have r: "runExclusive ?c ex_world = ex_world\<lparr>locked := True, jobs := [Acquired ?c]\<rparr>"
    by (simp add: runExclusive_def acquire_def dispatch_def isLocked_def ex_world_def)
  have b: "applyConfigLockedChange ex_env ?c (Some ConfigMutex) ex_world
        = (Completed, ex_world\<lparr>locked := True, jobs := [Acquired ?c]\<rparr>)"
    using t a r by metis
  show ?thesis by (intro conjI) (fact a b)+
qed

text \<open>
  Claim C9. The \<open>store-init\<close> listeners of both transports assign the snapshot to the
  store directly: the lock, its queue and the pending jobs are as before. When the lock
  was free, every change the observer reports during the installation is sent as
  \<open>config-update\<close> by every registered handler, before the acknowledgement.
\<close>

theorem store_init_not_guarded:
  "locked (snd (ipc_store_init E data w)) = locked w
   \<and> waiting (snd (ipc_store_init E data w)) = waiting w
   \<and> jobs (snd (ipc_store_init E data w)) = jobs w
   \<and> locked (snd (ws_store_init E data has_done w)) = locked w
   \<and> waiting (snd (ws_store_init E data has_done w)) = waiting w
   \<and> jobs (snd (ws_store_init E data has_done w)) = jobs w
   \<and> (deserialize E data = Some values \<and> \<not> isLocked w \<longrightarrow>
        new_events w (snd (ipc_store_init E data w)) =
          concat (map (\<lambda>change. map (config_update change) (observers w))
                    (observed E (store w) (store w ++ values)))
          @ [Installed, Sender_send ''store-init-done'']
        \<and> new_events w (snd (ws_store_init E data True w)) =
          concat (map (\<lambda>change. map (config_update change) (observers w))
                    (observed E (store w) (store w ++ values)))
          @ [Installed, Done_called])"
  by (cases "deserialize E data")
    (simp_all add: ipc_store_init_def ws_store_init_def mobx_set_eq emit_def call_done_def
      new_events_def notifications_def isLocked_def)

theorem store_init_not_guarded_witness:
  "deserialize ex_env [(''config'', 7)] = Some [''config'' \<mapsto> 7] \<and> \<not> isLocked ex_world
   \<and> \<not> locked (snd (ipc_store_init ex_env [(''config'', 7)] ex_world))
   \<and> new_events ex_world (snd (ipc_store_init ex_env [(''config'', 7)] ex_world))
       = [Ipc_send_change ''config-update'' \<lparr>path = ''config'', rest = Some 7\<rparr>,
          Installed, Sender_send ''store-init-done'']"
proof -
  let ?d = "[(''config'', 7::nat)]"
  let ?v = "[''config'' \<mapsto> (7::nat)]"
  have e: "deserialize ex_env ?d = Some ?v" by (simp add: ex_env_def)
  have u: "\<not> isLocked ex_world" "\<not> locked ex_world" by (simp_all add: isLocked_def ex_world_def)
  have n: "concat (map (\<lambda>change. map (config_update change) (observers ex_world))
                    (observed ex_env (store ex_world) (store ex_world ++ ?v)))
           = [Ipc_send_change ''config-update'' \<lparr>path = ''config'', rest = Some 7\<rparr>]"
    by (simp add: ex_env_def ex_world_def)
  note t = store_init_not_guarded[of ex_env ?d ex_world True ?v, unfolded n]
  have a: "\<not> locked (snd (ipc_store_init ex_env ?d ex_world))" using t u by metis
  have b: "new_events ex_world (snd (ipc_store_init ex_env ?d ex_world))
       = [Ipc_send_change ''config-update'' \<lparr>path = ''config'', rest = Some 7\<rparr>]
         @ [Installed, Sender_send ''store-init-done'']"
    using t e u by blast
  have b': "new_events ex_world (snd (ipc_store_init ex_env ?d ex_world))
       = [Ipc_send_change ''config-update'' \<lparr>path = ''config'', rest = Some 7\<rparr>,
          Installed, Sender_send ''store-init-done'']"
    using b by simp
  show ?thesis by (intro conjI) (fact e u a b')+
qed

section \<open>A websocket message without a callback\<close>

text \<open>
  Claim C10. The websocket listeners call \<open>done?.()\<close>: without a callback the
  \<open>store-update\<close> listener is the lock-gated apply and nothing more, and the
  \<open>store-init\<close> listener the installation and nothing more. The listener ends as it
  does with a callback (an error can only be one of \<open>applyChanges\<close> or \<open>deserialize\<close>
  itself) and in the same state, the change or the snapshot is applied to the store, and
  no call of \<open>done\<close> is logged.
\<close>

theorem missing_done_tolerated:
  "ws_store_update E configLock change False w = applyConfigLockedChange E change configLock w
   \<and> ws_store_init E data False w =
       (case deserialize E data of
          None \<Rightarrow> (Uncaught, w)
        | Some values \<Rightarrow> (Completed, mobx_set E values w))
   \<and> fst (ws_deliver E m False w) = fst (ws_deliver E m True w)
   \<and> same_state (snd (ws_deliver E m False w)) (snd (ws_deliver E m True w))
   \<and> Done_called \<notin> set (new_events w (snd (ws_deliver E m False w)))
   \<and> (idle w \<and> ws_listening w = Some configLock \<longrightarrow>
        store (snd (ws_event E (Store_update change) False w))
          = store_after (applyChanges E (store w) change))
   \<and> (ws_listening w = Some configLock \<and> deserialize E data = Some values \<longrightarrow>
        ws_deliver E (Store_init data) False w = (Completed, mobx_set E values w)
        \<and> store (mobx_set E values w) = store w ++ values)"
proof (intro conjI impI)
  show "ws_store_update E configLock change False w = applyConfigLockedChange E change configLock w"
    by (rule ws_store_update_no_done)
  show "ws_store_init E data False w =
       (case deserialize E data of
          None \<Rightarrow> (Uncaught, w)
        | Some values \<Rightarrow> (Completed, mobx_set E values w))"
    by (simp add: ws_store_init_def call_done_def split: option.split)
  have both: "fst (ws_deliver E m False w) = fst (ws_deliver E m True w)
     \<and> same_state (snd (ws_deliver E m False w)) (snd (ws_deliver E m True w))"
  proof (cases "ws_listening w")
    case None
    then show ?thesis by (simp add: ws_deliver_def same_state_refl)
  next
    case (Some l)
    show ?thesis
    proof (cases m)
      case (Store_update c)
      obtain r w1 where "applyConfigLockedChange E c l w = (r, w1)"
        by (cases "applyConfigLockedChange E c l w")
      then show ?thesis using Some Store_update
        by (cases r) (simp_all add: ws_deliver_def ws_store_update_def call_done_def
            same_state_def emit_def)
    next
      case (Store_init d)
      then show ?thesis using Some
        by (cases "deserialize E d") (simp_all add: ws_deliver_def ws_store_init_def call_done_def
            same_state_def emit_def)
    qed
  qed
  then show "fst (ws_deliver E m False w) = fst (ws_deliver E m True w)"
    and "same_state (snd (ws_deliver E m False w)) (snd (ws_deliver E m True w))"
    by simp_all
  show "Done_called \<notin> set (new_events w (snd (ws_deliver E m False w)))"
  proof (cases "ws_listening w")
    case None
    then show ?thesis by (simp add: ws_deliver_def new_events_def)
  next
    case (Some l)
    show ?thesis
    proof (cases m)
      case (Store_update c)
      obtain evs where "trace (snd (applyConfigLockedChange E c l w)) = trace w @ evs"
        "Done_called \<notin> set evs"
        using applyConfigLockedChange_trace by blast
      then show ?thesis using Some Store_update
        by (simp add: ws_deliver_def new_events_def ws_store_update_no_done)
    next
      case (Store_init d)
      then show ?thesis using Some
        by (cases "deserialize E d")
          (simp_all add: ws_deliver_def ws_store_init_def call_done_def new_events_def
            mobx_set_eq done_not_notified)
    qed
  qed
next
  assume a: "idle w \<and> ws_listening w = Some configLock"
  show "store (snd (ws_event E (Store_update change) False w))
          = store_after (applyChanges E (store w) change)"
    using a store_after_apply[of w E change configLock]
    by (simp add: ws_event_def ws_deliver_def ws_store_update_no_done split_beta)
next
  assume "ws_listening w = Some configLock \<and> deserialize E data = Some values"
  then show "ws_deliver E (Store_init data) False w = (Completed, mobx_set E values w)"
    by (simp add: ws_deliver_def ws_store_init_def call_done_def)
next
  show "store (mobx_set E values w) = store w ++ values"
    by (simp add: mobx_set_eq)
qed

theorem missing_done_tolerated_witness:
  "idle ex_world \<and> ws_listening ex_world = Some (Some ConfigMutex)
   \<and> deserialize ex_env [(''config'', 7)] = Some [''config'' \<mapsto> 7]
   \<and> store (snd (ws_event ex_env (Store_update \<lparr>path = ''config.volume'', rest = Some 8\<rparr>) False ex_world))
       = [''config'' \<mapsto> 5, ''playlist'' \<mapsto> 0, ''config.volume'' \<mapsto> 8]
   \<and> Done_called \<notin> set (new_events ex_world
       (snd (ws_deliver ex_env (Store_update \<lparr>path = ''config.volume'', rest = Some 8\<rparr>) False ex_world)))
   \<and> ws_deliver ex_env (Store_init [(''config'', 7)]) False ex_world
       = (Completed, mobx_set ex_env [''config'' \<mapsto> 7] ex_world)
   \<and> store (mobx_set ex_env [''config'' \<mapsto> 7] ex_world) = [''config'' \<mapsto> 7, ''playlist'' \<mapsto> 0]"
proof -
  let ?c = "\<lparr>path = ''config.volume'', rest = Some (8::nat)\<rparr>"
  let ?d = "[(''config'', 7::nat)]"
  let ?v = "[''config'' \<mapsto> (7::nat)]"
  have i: "idle ex_world" by (simp add: idle_def ex_world_def)
  have s: "ws_listening ex_world = Some (Some ConfigMutex)" by (simp add: ex_world_def)
  have e: "deserialize ex_env ?d = Some ?v" by (simp add: ex_env_def)
  have a: "store_after (applyChanges ex_env (store ex_world) ?c)
      = [''config'' \<mapsto> 5, ''playlist'' \<mapsto> 0, ''config.volume'' \<mapsto> 8]"
    by (simp add: ex_env_def ex_world_def)
  have v: "store ex_world ++ ?v = [''config'' \<mapsto> 7, ''playlist'' \<mapsto> 0]"
    by (simp add: ex_world_def fun_eq_iff)
  note t = missing_done_tolerated[of ex_env "Some ConfigMutex" ?c ex_world ?d
      "Store_update ?c" ?v]
  have t1: "store (snd (ws_event ex_env (Store_update ?c) False ex_world))
       = [''config'' \<mapsto> 5, ''playlist'' \<mapsto> 0, ''config.volume'' \<mapsto> 8]"
    using t i s a by metis
  have t2: "Done_called \<notin> set (new_events ex_world
       (snd (ws_deliver ex_env (Store_update ?c) False ex_world)))"
    using t by blast
  have t3: "ws_deliver ex_env (Store_init ?d) False ex_world = (Completed, mobx_set ex_env ?v ex_world)"
    using t s e by blast
  have t4: "store (mobx_set ex_env ?v ex_world) = [''config'' \<mapsto> 7, ''playlist'' \<mapsto> 0]"
    using t s e v by metis
  show ?thesis by (intro conjI) (fact i s e t1 t2 t3 t4)+
qed

end
